theory Spec2Isabelle
  imports Main "HOL-Library.AList" "HOL-Library.Sublist"
begin

section \<open>File Organizer: planner, executor and undo engine\<close>

text \<open>
  A shallow embedding of \<^verbatim>\<open>file_organizer/__main__.py\<close>: \<^verbatim>\<open>plan_moves\<close>,
  \<^verbatim>\<open>do_moves\<close> and \<^verbatim>\<open>undo\<close>, together with the parts of \<^verbatim>\<open>pathlib\<close>,
  \<^verbatim>\<open>shutil\<close> and \<^verbatim>\<open>json\<close> they call.

  Modelling decisions:
  \<^item> A path is the list of its components below the root; \<open>[]\<close> is the root directory.
    Paths are absolute and normalised, and there are no symbolic links in the tree.
    \<^verbatim>\<open>str(p)\<close> followed by \<^verbatim>\<open>Path(...)\<close> is the identity on such paths.
  \<^item> The filesystem is a finite association list from paths to nodes. The root always
    exists and is a directory.
  \<^item> \<^verbatim>\<open>Path.resolve\<close> and the local-time year and month of a file's modification
    time are parameters of the planner.
  \<^item> Every exception of the source is a value \<open>Inl e\<close>; \<^verbatim>\<open>print\<close> appends an event to
    an output list.
  \<^item> Characters are bytes; \<^verbatim>\<open>str.lower\<close> is modelled on the ASCII letters.
\<close>

subsection \<open>Strings\<close>

definition lower_char :: "char \<Rightarrow> char" where
  "lower_char c =
     (case map_of (zip ''ABCDEFGHIJKLMNOPQRSTUVWXYZ'' ''abcdefghijklmnopqrstuvwxyz'') c of
        Some d \<Rightarrow> d
      | None \<Rightarrow> c)"

definition lower :: "string \<Rightarrow> string" where
  "lower s = map lower_char s"

definition lstrip :: "char \<Rightarrow> string \<Rightarrow> string" where
  "lstrip c s = dropWhile (\<lambda>x. x = c) s"

text \<open>\<^verbatim>\<open>s.rfind(c)\<close>: the highest index of \<open>c\<close> in \<open>s\<close>; \<open>None\<close> stands for \<^verbatim>\<open>-1\<close>.\<close>

fun rfind :: "char \<Rightarrow> string \<Rightarrow> nat option" where
  "rfind c [] = None"
| "rfind c (x # xs) =
     (case rfind c xs of
        Some i \<Rightarrow> Some (Suc i)
      | None \<Rightarrow> if x = c then Some 0 else None)"

definition digit_char :: "nat \<Rightarrow> char" where
  "digit_char d = ''0123456789'' ! d"

text \<open>\<^verbatim>\<open>str(i)\<close> for a non-negative integer: its decimal digits.\<close>

fun str_nat :: "nat \<Rightarrow> string" where
  "str_nat n = (if n < 10 then [digit_char n] else str_nat (n div 10) @ [digit_char (n mod 10)])"

declare str_nat.simps [simp del]

text \<open>The format specifications \<^verbatim>\<open>:04d\<close> and \<^verbatim>\<open>:02d\<close>: pad with zeros on the left.\<close>

definition zero_pad :: "nat \<Rightarrow> nat \<Rightarrow> string" where
  "zero_pad w n = replicate (w - length (str_nat n)) CHR ''0'' @ str_nat n"

subsection \<open>Paths\<close>

type_synonym path = "string list"

definition path_name :: "path \<Rightarrow> string" where
  "path_name p = (if p = [] then [] else last p)"

definition path_parent :: "path \<Rightarrow> path" where
  "path_parent p = butlast p"

text \<open>
  \<^verbatim>\<open>PurePath.suffix\<close> and \<^verbatim>\<open>PurePath.stem\<close>: the name is split at its last dot,
  unless that dot is the first or the last character of the name.
\<close>

definition path_suffix :: "path \<Rightarrow> string" where
  "path_suffix p =
     (let name = path_name p in
      case rfind CHR ''.'' name of
        Some i \<Rightarrow> if 0 < i \<and> i + 1 < length name then drop i name else []
      | None \<Rightarrow> [])"

definition path_stem :: "path \<Rightarrow> string" where
  "path_stem p =
     (let name = path_name p in
      case rfind CHR ''.'' name of
        Some i \<Rightarrow> if 0 < i \<and> i + 1 < length name then take i name else name
      | None \<Rightarrow> name)"

datatype error = ValueError | OSError | JSONDecodeError

text \<open>\<^verbatim>\<open>PurePath.with_name\<close> raises \<^verbatim>\<open>ValueError\<close> on a path with an empty name.\<close>

definition with_name :: "path \<Rightarrow> string \<Rightarrow> error + path" where
  "with_name p n = (if path_name p = [] then Inl ValueError else Inr (butlast p @ [n]))"

subsection \<open>The filesystem\<close>

text \<open>
  A node is a directory, an ordinary file with its text, or a file holding the JSON
  serialisation of a sequence of move records (\<^verbatim>\<open>json.dumps\<close> of a list of pairs of
  strings; \<^verbatim>\<open>json.loads\<close> gives the sequence back).
\<close>

datatype node = Dir | File string | LogFile "(path \<times> path) list"

type_synonym fs = "(path \<times> node) list"

definition path_exists :: "fs \<Rightarrow> path \<Rightarrow> bool" where
  "path_exists fs p = (p = [] \<or> map_of fs p \<noteq> None)"

definition is_dir :: "fs \<Rightarrow> path \<Rightarrow> bool" where
  "is_dir fs p = (p = [] \<or> map_of fs p = Some Dir)"

text \<open>
  \<^verbatim>\<open>Path.iterdir\<close>: the direct entries of a directory, in the order of the filesystem;
  \<^verbatim>\<open>OSError\<close> when the path is not a directory.
\<close>

definition iterdir :: "fs \<Rightarrow> path \<Rightarrow> error + path list" where
  "iterdir fs d =
     (if is_dir fs d then Inr (filter (\<lambda>p. p \<noteq> [] \<and> butlast p = d) (map fst fs))
      else Inl OSError)"

text \<open>
  \<^verbatim>\<open>Path.mkdir(parents=True, exist_ok=True)\<close>: an existing directory is left alone, an
  existing file is an error, a missing parent is created first. All the failures of the
  operating system (\<^verbatim>\<open>FileNotFoundError\<close>, \<^verbatim>\<open>FileExistsError\<close>,
  \<^verbatim>\<open>NotADirectoryError\<close>, \<^verbatim>\<open>IsADirectoryError\<close>, \<^verbatim>\<open>shutil.Error\<close>) are
  \<open>OSError\<close>, their common base class.
\<close>

function mkdir_p :: "fs \<Rightarrow> path \<Rightarrow> error + fs" where
  "mkdir_p fs d =
     (if path_exists fs d then (if is_dir fs d then Inr fs else Inl OSError)
      else if is_dir fs (path_parent d) then Inr (fs @ [(d, Dir)])
      else if path_exists fs (path_parent d) then Inl OSError
      else (case mkdir_p fs (path_parent d) of
              Inl e \<Rightarrow> Inl e
            | Inr fs' \<Rightarrow> Inr (fs' @ [(d, Dir)])))"
  by pat_completeness auto
termination
  by (relation "measure (\<lambda>(fs, d). length d)") (auto simp: path_exists_def path_parent_def)

declare mkdir_p.simps [simp del]

definition move_file :: "fs \<Rightarrow> path \<Rightarrow> node \<Rightarrow> path \<Rightarrow> fs" where
  "move_file fs src n dst = AList.update dst n (AList.delete src fs)"

definition move_tree :: "fs \<Rightarrow> path \<Rightarrow> path \<Rightarrow> fs" where
  "move_tree fs src dst =
     map (\<lambda>(p, n). (if prefix src p then dst @ drop (length src) p else p, n)) fs"

text \<open>
  \<^verbatim>\<open>shutil.move(src, dst)\<close> on one device. A destination that is a directory receives
  the source under the source's name, unless that name is taken there. Otherwise the
  source is renamed to the destination: a file replaces an existing file, a directory
  needs a free destination outside itself (and, through \<^verbatim>\<open>copytree\<close>, creates the
  missing parents of the destination).
\<close>

definition shutil_move :: "fs \<Rightarrow> path \<Rightarrow> path \<Rightarrow> error + fs" where
  "shutil_move fs src dst =
     (let real_dst = (if is_dir fs dst \<and> src \<noteq> dst then dst @ [path_name src] else dst) in
      if is_dir fs dst \<and> src \<noteq> dst \<and> path_exists fs real_dst then Inl OSError
      else case map_of fs src of
        None \<Rightarrow> Inl OSError
      | Some Dir \<Rightarrow>
          if src = real_dst then Inr fs
          else if prefix src real_dst \<or> path_exists fs real_dst then Inl OSError
          else (case mkdir_p fs (path_parent real_dst) of
                  Inl e \<Rightarrow> Inl e
                | Inr fs' \<Rightarrow> Inr (move_tree fs' src real_dst))
      | Some n \<Rightarrow>
          if src = real_dst then Inr fs
          else if \<not> is_dir fs (path_parent real_dst) then Inl OSError
          else Inr (move_file fs src n real_dst))"

text \<open>
  \<^verbatim>\<open>Path.write_text\<close> of a serialised record sequence: creates or overwrites the file;
  fails on a directory and under a missing parent.
\<close>

definition write_text :: "fs \<Rightarrow> path \<Rightarrow> node \<Rightarrow> error + fs" where
  "write_text fs p n =
     (if is_dir fs p \<or> \<not> is_dir fs (path_parent p) then Inl OSError
      else Inr (AList.update p n fs))"

text \<open>
  \<^verbatim>\<open>json.loads(undo_log.read_text(...))\<close>: the record sequence of a log file. A
  directory cannot be read. A \<open>File\<close> node stands for a file whose text is not JSON at
  all, on which \<^verbatim>\<open>json.loads\<close> raises; a text that is JSON of another shape (where
  the loop of \<^verbatim>\<open>undo\<close> raises while unpacking a record) is outside the model, and
  every log the executor writes is a \<open>LogFile\<close>.
\<close>

definition read_log :: "fs \<Rightarrow> path \<Rightarrow> error + (path \<times> path) list" where
  "read_log fs p =
     (case map_of fs p of
        Some (LogFile moves) \<Rightarrow> Inr moves
      | Some (File s) \<Rightarrow> Inl JSONDecodeError
      | _ \<Rightarrow> Inl OSError)"

subsection \<open>Output\<close>

text \<open>One constructor for each \<^verbatim>\<open>print\<close> of the source.\<close>

datatype event =
    DRY path path
  | MOVE path path
  | LOG path
  | NoUndoLog
  | DRY_UNDO path path
  | UNDO path path
  | SKIP path

subsection \<open>Planner\<close>

text \<open>
  The body of the loop of \<^verbatim>\<open>plan_moves\<close> for an entry that is not a directory: the
  destination by mode, \<^verbatim>\<open>ValueError\<close> on any other mode. The parameter \<open>ym\<close> gives
  the year and month of \<^verbatim>\<open>datetime.fromtimestamp(p.stat().st_mtime)\<close>.
\<close>

definition dest_of :: "(path \<Rightarrow> nat \<times> nat) \<Rightarrow> path \<Rightarrow> string \<Rightarrow> path \<Rightarrow> error + path" where
  "dest_of ym target mode p =
     (if mode = ''ext'' then
        (let e = lstrip CHR ''.'' (lower (path_suffix p));
             ext = (if e = [] then ''no_ext'' else e)
         in Inr (target @ [ext, path_name p]))
      else if mode = ''date'' then
        (let ts = ym p
         in Inr (target @ [zero_pad 4 (fst ts), zero_pad 2 (snd ts), path_name p]))
      else Inl ValueError)"

fun plan_loop ::
  "(path \<Rightarrow> path) \<Rightarrow> (path \<Rightarrow> nat \<times> nat) \<Rightarrow> fs \<Rightarrow> path \<Rightarrow> string \<Rightarrow>
   (path \<times> path) list \<Rightarrow> path list \<Rightarrow> error + (path \<times> path) list" where
  "plan_loop resolve ym fs target mode ops [] = Inr ops"
| "plan_loop resolve ym fs target mode ops (p # ps) =
     (if is_dir fs p then plan_loop resolve ym fs target mode ops ps
      else case dest_of ym target mode p of
        Inl e \<Rightarrow> Inl e
      | Inr dest \<Rightarrow>
          if resolve p = resolve dest then plan_loop resolve ym fs target mode ops ps
          else plan_loop resolve ym fs target mode (ops @ [(p, dest)]) ps)"

definition plan_moves ::
  "(path \<Rightarrow> path) \<Rightarrow> (path \<Rightarrow> nat \<times> nat) \<Rightarrow> fs \<Rightarrow> path \<Rightarrow> path \<Rightarrow> string \<Rightarrow>
   error + (path \<times> path) list" where
  "plan_moves resolve ym fs source target mode =
     (case iterdir fs source of
        Inl e \<Rightarrow> Inl e
      | Inr entries \<Rightarrow> plan_loop resolve ym fs target mode [] entries)"

text \<open>What one entry of the listing adds to the plan, if the mode is valid: nothing for a
  directory or a destination that resolves to the origin, else its pair.\<close>

definition planned ::
  "(path \<Rightarrow> path) \<Rightarrow> (path \<Rightarrow> nat \<times> nat) \<Rightarrow> fs \<Rightarrow> path \<Rightarrow> string \<Rightarrow> path \<Rightarrow>
   (path \<times> path) list" where
  "planned resolve ym fs target mode p =
     (if is_dir fs p then []
      else case dest_of ym target mode p of
        Inl e \<Rightarrow> []
      | Inr dest \<Rightarrow> if resolve p = resolve dest then [] else [(p, dest)])"

subsection \<open>Executor\<close>

text \<open>The candidate name \<^verbatim>\<open>f"{stem} ({i}){suf}"\<close>.\<close>

definition cand_name :: "string \<Rightarrow> string \<Rightarrow> nat \<Rightarrow> string" where
  "cand_name stem suf i = stem @ '' ('' @ str_nat i @ '')'' @ suf"

text \<open>
  Distinct counters give distinct candidates; the collision loop below terminates
  because of it.
\<close>

lemma digit_char_inj: "a < 10 \<Longrightarrow> b < 10 \<Longrightarrow> digit_char a = digit_char b \<Longrightarrow> a = b"
proof -
  assume "a < 10" "b < 10" "digit_char a = digit_char b"
  moreover have "distinct ''0123456789''" by simp
  moreover have "length ''0123456789'' = 10" by simp
  ultimately show ?thesis
    unfolding digit_char_def by (metis nth_eq_iff_index_eq)
qed

lemma str_nat_nonempty: "str_nat n \<noteq> []"
  by (subst str_nat.simps) simp

lemma str_nat_inj: "str_nat m = str_nat n \<Longrightarrow> m = n"
proof (induction n arbitrary: m rule: str_nat.induct)
  case (1 n)
  show ?case
  proof (cases "n < 10")
    case True
    then have n: "str_nat n = [digit_char n]" by (subst str_nat.simps) simp
    show ?thesis
    proof (cases "m < 10")
      case mt: True
      then have "str_nat m = [digit_char m]" by (subst str_nat.simps) simp
      with n "1.prems" True mt show ?thesis by (auto dest: digit_char_inj)
    next
      case False
      then have "str_nat m = str_nat (m div 10) @ [digit_char (m mod 10)]"
        by (subst str_nat.simps) simp
      with n "1.prems" str_nat_nonempty [of "m div 10"] show ?thesis by simp
    qed
  next
    case False
    then have n: "str_nat n = str_nat (n div 10) @ [digit_char (n mod 10)]"
      by (subst str_nat.simps) simp
    show ?thesis
    proof (cases "m < 10")
      case True
      then have "str_nat m = [digit_char m]" by (subst str_nat.simps) simp
      with n "1.prems" str_nat_nonempty [of "n div 10"] show ?thesis by simp
    next
      case mf: False
      then have "str_nat m = str_nat (m div 10) @ [digit_char (m mod 10)]"
        by (subst str_nat.simps) simp
      with n "1.prems" have a: "str_nat (m div 10) = str_nat (n div 10)"
        and b: "digit_char (m mod 10) = digit_char (n mod 10)" by simp_all
      from "1.IH" [OF False a] have "m div 10 = n div 10" .
      moreover from b have "m mod 10 = n mod 10"
        using digit_char_inj [of "m mod 10" "n mod 10"] by simp
      ultimately show ?thesis by (metis div_mult_mod_eq)
    qed
  qed
qed

lemma cand_name_inj: "cand_name stem suf i = cand_name stem suf j \<Longrightarrow> i = j"
  by (simp add: cand_name_def str_nat_inj)

text \<open>
  The \<^verbatim>\<open>while True\<close> loop of \<^verbatim>\<open>do_moves\<close>: the first candidate from counter \<open>i\<close>
  on that does not exist. It terminates since the filesystem is finite: every round
  uses up one existing path of the form of a candidate.
\<close>

function dedupe_loop :: "fs \<Rightarrow> path \<Rightarrow> string \<Rightarrow> string \<Rightarrow> nat \<Rightarrow> error + path" where
  "dedupe_loop fs dst stem suf i =
     (case with_name dst (cand_name stem suf i) of
        Inl e \<Rightarrow> Inl e
      | Inr cand \<Rightarrow>
          if \<not> path_exists fs cand then Inr cand
          else dedupe_loop fs dst stem suf (i + 1))"
  by pat_completeness auto
termination
proof (relation "measure (\<lambda>(fs, dst, stem, suf, i).
         card {p \<in> fst ` set fs. \<exists>k\<ge>i. with_name dst (cand_name stem suf k) = Inr p})")
  show "wf (measure (\<lambda>(fs, dst, stem, suf, i).
         card {p \<in> fst ` set fs. \<exists>k\<ge>i. with_name dst (cand_name stem suf k) = Inr p}))"
    by simp
next
  fix fs :: fs and dst :: path and stem suf :: string and i :: nat and cand :: path
  assume c: "with_name dst (cand_name stem suf i) = Inr cand"
    and e: "\<not> \<not> path_exists fs cand"
  let ?S = "\<lambda>i. {p \<in> fst ` set fs. \<exists>k\<ge>i. with_name dst (cand_name stem suf k) = Inr p}"
  from c have cand: "cand = butlast dst @ [cand_name stem suf i]"
    by (auto simp: with_name_def split: if_splits)
  with e have "cand \<in> fst ` set fs"
    by (auto simp: path_exists_def map_of_eq_None_iff)
  with c have "cand \<in> ?S i" by auto
  moreover have "cand \<notin> ?S (i + 1)"
    using cand by (auto simp: with_name_def split: if_splits dest: cand_name_inj)
  moreover have "?S (i + 1) \<subseteq> ?S i" by (auto intro: Suc_leD)
  ultimately have "?S (i + 1) \<subset> ?S i" by blast
  moreover have "finite (?S i)" by simp
  ultimately have "card (?S (i + 1)) < card (?S i)" by (rule psubset_card_mono [rotated])
  then show "((fs, dst, stem, suf, i + 1), (fs, dst, stem, suf, i)) \<in> measure (\<lambda>(fs, dst, stem, suf, i).
         card {p \<in> fst ` set fs. \<exists>k\<ge>i. with_name dst (cand_name stem suf k) = Inr p})"
    by simp
qed

declare dedupe_loop.simps [simp del]

text \<open>The \<^verbatim>\<open>if dst.exists()\<close> block: the final destination of one move.\<close>

definition dedupe :: "fs \<Rightarrow> path \<Rightarrow> error + path" where
  "dedupe fs dst =
     (if path_exists fs dst then dedupe_loop fs dst (path_stem dst) (path_suffix dst) 1
      else Inr dst)"

text \<open>
  The path \<^verbatim>\<open>dst.with_name(f"{stem} ({k}){suf}")\<close> with the stem and suffix of
  \<open>dst\<close> itself: the \<open>k\<close>-th candidate for a destination that has a name.
\<close>

definition candidate :: "path \<Rightarrow> nat \<Rightarrow> path" where
  "candidate dst k = path_parent dst @ [cand_name (path_stem dst) (path_suffix dst) k]"

text \<open>
  The body of the loop of \<^verbatim>\<open>do_moves\<close> for one pair: the new filesystem, the records
  appended to \<^verbatim>\<open>performed\<close> and the lines printed.
\<close>

definition move_one ::
  "bool \<Rightarrow> fs \<Rightarrow> path \<times> path \<Rightarrow> error + (fs \<times> (path \<times> path) list \<times> event list)" where
  "move_one dry_run fs op =
     (let src = fst op; dst = snd op in
      case mkdir_p fs (path_parent dst) of
        Inl e \<Rightarrow> Inl e
      | Inr fs1 \<Rightarrow>
          if dry_run then Inr (fs1, [], [DRY src dst])
          else (case dedupe fs1 dst of
                  Inl e \<Rightarrow> Inl e
                | Inr dst' \<Rightarrow>
                    (case shutil_move fs1 src dst' of
                       Inl e \<Rightarrow> Inl e
                     | Inr fs2 \<Rightarrow> Inr (fs2, [(src, dst')], [MOVE src dst']))))"

fun do_loop ::
  "bool \<Rightarrow> fs \<Rightarrow> (path \<times> path) list \<Rightarrow> event list \<Rightarrow> (path \<times> path) list \<Rightarrow>
   error + (fs \<times> (path \<times> path) list \<times> event list)" where
  "do_loop dry_run fs performed out [] = Inr (fs, performed, out)"
| "do_loop dry_run fs performed out (op # ops) =
     (case move_one dry_run fs op of
        Inl e \<Rightarrow> Inl e
      | Inr (fs', recs, lines) \<Rightarrow> do_loop dry_run fs' (performed @ recs) (out @ lines) ops)"

text \<open>
  \<^verbatim>\<open>do_moves(ops, dry_run, undo_log)\<close>; \<open>undo_log\<close> is \<open>None\<close> for Python's
  \<^verbatim>\<open>None\<close>. The result is the filesystem afterwards and the lines printed.
\<close>

definition do_moves ::
  "fs \<Rightarrow> (path \<times> path) list \<Rightarrow> bool \<Rightarrow> path option \<Rightarrow> error + (fs \<times> event list)" where
  "do_moves fs ops dry_run undo_log =
     (case do_loop dry_run fs [] [] ops of
        Inl e \<Rightarrow> Inl e
      | Inr (fs', performed, out) \<Rightarrow>
          (case undo_log of
             Some lg \<Rightarrow>
               if \<not> dry_run \<and> performed \<noteq> [] then
                 (case write_text fs' lg (LogFile performed) of
                    Inl e \<Rightarrow> Inl e
                  | Inr fs'' \<Rightarrow> Inr (fs'', out @ [LOG lg]))
               else Inr (fs', out)
           | None \<Rightarrow> Inr (fs', out)))"

subsection \<open>Undo engine\<close>

text \<open>
  The body of the loop of \<^verbatim>\<open>undo\<close>. The loop header is
  \<^verbatim>\<open>for dst, src in reversed(moves)\<close>: \<open>dst\<close> is bound to the first element of a
  record and \<open>src\<close> to the second.
\<close>

definition undo_one :: "bool \<Rightarrow> fs \<Rightarrow> path \<times> path \<Rightarrow> error + (fs \<times> event list)" where
  "undo_one dry_run fs r =
     (let dst = fst r; src = snd r in
      if dry_run then Inr (fs, [DRY_UNDO dst src])
      else (case mkdir_p fs (path_parent src) of
              Inl e \<Rightarrow> Inl e
            | Inr fs1 \<Rightarrow>
                if path_exists fs1 dst then
                  (case shutil_move fs1 dst src of
                     Inl e \<Rightarrow> Inl e
                   | Inr fs2 \<Rightarrow> Inr (fs2, [UNDO dst src]))
                else Inr (fs1, [SKIP dst])))"

fun undo_loop ::
  "bool \<Rightarrow> fs \<Rightarrow> event list \<Rightarrow> (path \<times> path) list \<Rightarrow> error + (fs \<times> event list)" where
  "undo_loop dry_run fs out [] = Inr (fs, out)"
| "undo_loop dry_run fs out (r # rs) =
     (case undo_one dry_run fs r of
        Inl e \<Rightarrow> Inl e
      | Inr (fs', lines) \<Rightarrow> undo_loop dry_run fs' (out @ lines) rs)"

definition undo :: "fs \<Rightarrow> path \<Rightarrow> bool \<Rightarrow> error + (fs \<times> event list)" where
  "undo fs undo_log dry_run =
     (if \<not> path_exists fs undo_log then Inr (fs, [NoUndoLog])
      else (case read_log fs undo_log of
              Inl e \<Rightarrow> Inl e
            | Inr moves \<Rightarrow> undo_loop dry_run fs [] (rev moves)))"

subsection \<open>Example filesystems\<close>

text \<open>
  The scenario of two files planned to the same destination: \<^verbatim>\<open>/t/txt/report.txt\<close>
  is already there when \<^verbatim>\<open>/s/report.txt\<close> is moved to it.
\<close>

definition report_fs :: fs where
  "report_fs =
     [([''s''], Dir), ([''s'', ''report.txt''], File ''second''),
      ([''t''], Dir), ([''t'', ''txt''], Dir),
      ([''t'', ''txt'', ''report.txt''], File ''first'')]"

text \<open>The same scenario with \<^verbatim>\<open>/t/txt/report (1).txt\<close> taken as well.\<close>

definition report2_fs :: fs where
  "report2_fs =
     [([''s''], Dir), ([''s'', ''report.txt''], File ''third''),
      ([''t''], Dir), ([''t'', ''txt''], Dir),
      ([''t'', ''txt'', ''report.txt''], File ''first''),
      ([''t'', ''txt'', ''report (1).txt''], File ''second'')]"

text \<open>
  \<^verbatim>\<open>Path.resolve\<close> on a tree without symbolic links, whose paths are absolute and
  normalised already; and a clock on which every file was last modified in March 2024.
\<close>

definition plain_resolve :: "path \<Rightarrow> path" where
  "plain_resolve p = p"

definition march_2024 :: "path \<Rightarrow> nat \<times> nat" where
  "march_2024 p = (2024, 3)"

text \<open>The directory of \<^verbatim>\<open>tests/test_basic.py\<close>, and one with a subdirectory.\<close>

definition tmp_fs :: fs where
  "tmp_fs =
     [([''tmp''], Dir), ([''tmp'', ''a.txt''], File ''x''),
      ([''tmp'', ''b.TXT''], File ''y''), ([''tmp'', ''c''], File ''z'')]"

definition nested_fs :: fs where
  "nested_fs =
     [([''tmp''], Dir), ([''tmp'', ''sub''], Dir), ([''tmp'', ''sub'', ''d.txt''], File ''w''),
      ([''tmp'', ''a.txt''], File ''x'')]"

text \<open>The same three files in a directory \<^verbatim>\<open>/t/txt\<close>, to be organized under \<^verbatim>\<open>/t\<close>.\<close>

definition sorted_fs :: fs where
  "sorted_fs =
     [([''t''], Dir), ([''t'', ''txt''], Dir), ([''t'', ''txt'', ''a.txt''], File ''x''),
      ([''t'', ''txt'', ''b.TXT''], File ''y''), ([''t'', ''txt'', ''c''], File ''z'')]"

text \<open>
  A directory with one file, and the filesystem after it has been organized by extension
  with the undo log \<^verbatim>\<open>/undo_moves.json\<close>.
\<close>

definition one_fs :: fs where
  "one_fs = [([''s''], Dir), ([''s'', ''a.txt''], File ''x'')]"

definition one_moved_fs :: fs where
  "one_moved_fs =
     [([''s''], Dir), ([''s'', ''txt''], Dir), ([''s'', ''txt'', ''a.txt''], File ''x''),
      ([''undo_moves.json''], LogFile [([''s'', ''a.txt''], [''s'', ''txt'', ''a.txt''])])]"

text \<open>
  After two files were organized, \<^verbatim>\<open>/s/txt/a.txt\<close> has been deleted by hand;
  \<^verbatim>\<open>/s/txt/b.txt\<close> is still where the executor put it.
\<close>

definition two_moved_fs :: fs where
  "two_moved_fs =
     [([''s''], Dir), ([''s'', ''txt''], Dir), ([''s'', ''txt'', ''b.txt''], File ''y''),
      ([''undo_moves.json''],
       LogFile [([''s'', ''a.txt''], [''s'', ''txt'', ''a.txt'']),
                ([''s'', ''b.txt''], [''s'', ''txt'', ''b.txt''])])]"

text \<open>After one file was organized, a new file has been written at its origin.\<close>

definition refilled_fs :: fs where
  "refilled_fs =
     [([''s''], Dir), ([''s'', ''a.txt''], File ''new''), ([''s'', ''txt''], Dir),
      ([''s'', ''txt'', ''a.txt''], File ''old''),
      ([''undo_moves.json''], LogFile [([''s'', ''a.txt''], [''s'', ''txt'', ''a.txt''])])]"

section \<open>Properties\<close>

subsection \<open>Auxiliary facts\<close>

lemma with_name_Inr: "path_name dst \<noteq> [] \<Longrightarrow> with_name dst n = Inr (path_parent dst @ [n])"
  by (simp add: with_name_def path_parent_def)

lemma dedupe_loop_least:
  assumes "path_name dst \<noteq> []"
  shows "\<exists>k\<ge>i. dedupe_loop fs dst stem suf i = Inr (path_parent dst @ [cand_name stem suf k])
           \<and> \<not> path_exists fs (path_parent dst @ [cand_name stem suf k])
           \<and> (\<forall>j. i \<le> j \<and> j < k \<longrightarrow> path_exists fs (path_parent dst @ [cand_name stem suf j]))"
  using assms
proof (induction fs dst stem suf i rule: dedupe_loop.induct)
  case (1 fs dst stem suf i)
  let ?c = "\<lambda>k. path_parent dst @ [cand_name stem suf k]"
  have wn: "with_name dst (cand_name stem suf i) = Inr (?c i)"
    using "1.prems" by (rule with_name_Inr)
  show ?case
  proof (cases "path_exists fs (?c i)")
    case False
    then have "dedupe_loop fs dst stem suf i = Inr (?c i)"
      by (subst dedupe_loop.simps) (simp add: wn)
    with False show ?thesis by (intro exI [of _ i]) auto
  next
    case True
    then have eq: "dedupe_loop fs dst stem suf i = dedupe_loop fs dst stem suf (i + 1)"
      by (subst dedupe_loop.simps) (simp add: wn)
    from "1.IH" [OF wn _ "1.prems"] True
    obtain k where k: "i + 1 \<le> k" "dedupe_loop fs dst stem suf (i + 1) = Inr (?c k)"
      "\<not> path_exists fs (?c k)" "\<forall>j. i + 1 \<le> j \<and> j < k \<longrightarrow> path_exists fs (?c j)"
      by auto
    have "\<forall>j. i \<le> j \<and> j < k \<longrightarrow> path_exists fs (?c j)"
    proof (intro allI impI)
      fix j assume "i \<le> j \<and> j < k"
      then consider "j = i" | "i + 1 \<le> j \<and> j < k" by linarith
      then show "path_exists fs (?c j)" using True k(4) by cases auto
    qed
    with k eq show ?thesis by (intro exI [of _ k]) auto
  qed
qed

lemma mkdir_p_frame:
  "mkdir_p fs d = Inr fs1 \<Longrightarrow> \<not> prefix p d \<Longrightarrow> map_of fs1 p = map_of fs p"
proof (induction fs d arbitrary: fs1 rule: mkdir_p.induct)
  case (1 fs d)
  have np: "\<not> prefix p (path_parent d)" 
    using "1.prems"(2) by (metis path_parent_def prefix_order.trans prefixeq_butlast)
  have ne: "p \<noteq> d" using "1.prems"(2) by auto
  from "1.prems"(1) show ?case
    apply (subst (asm) mkdir_p.simps)
    apply (auto simp: map_add_def ne split: if_splits sum.splits option.splits)
    using "1.IH" np apply auto
    done
qed

lemma not_prefix_parent: "d \<noteq> [] \<Longrightarrow> \<not> prefix d (path_parent d)"
  by (cases d rule: rev_cases) (auto simp: path_parent_def prefix_def)

lemma mkdir_p_is_dir: "mkdir_p fs d = Inr fs1 \<Longrightarrow> is_dir fs1 d"
proof (cases "path_exists fs d")
  case True
  assume "mkdir_p fs d = Inr fs1"
  with True show ?thesis
    by (subst (asm) mkdir_p.simps) (auto split: if_splits)
next
  case False
  assume ok: "mkdir_p fs d = Inr fs1"
  from False have d: "d \<noteq> []" and none: "map_of fs d = None"
    by (auto simp: path_exists_def)
  from ok False obtain fs' where fs1: "fs1 = fs' @ [(d, Dir)]"
    and fs': "fs' = fs \<or> mkdir_p fs (path_parent d) = Inr fs'"
    by (subst (asm) mkdir_p.simps) (auto split: if_splits sum.splits)
  from fs' have "map_of fs' d = None"
    using none mkdir_p_frame [OF _ not_prefix_parent [OF d], of fs fs'] by auto
  with fs1 show ?thesis by (simp add: is_dir_def map_add_def)
qed

lemma mkdir_p_idem: "mkdir_p fs d = Inr fs1 \<Longrightarrow> mkdir_p fs1 d = Inr fs1"
  using mkdir_p_is_dir [of fs d fs1]
  by (subst mkdir_p.simps) (auto simp: is_dir_def path_exists_def)

lemma map_of_move_file:
  "map_of (move_file fs src n dst) p =
     (if p = dst then Some n else if p = src then None else map_of fs p)"
  by (simp add: move_file_def update_conv' delete_conv')

lemma map_of_move_tree_frame:
  "\<not> prefix src p \<Longrightarrow> \<not> prefix dst p \<Longrightarrow> map_of (move_tree fs src dst) p = map_of fs p"
  by (induction fs) (auto simp: move_tree_def)

lemma map_of_move_tree_dst:
  "map_of fs dst = None \<Longrightarrow> map_of (move_tree fs src dst) dst = map_of fs src"
proof (induction fs)
  case Nil
  then show ?case by (simp add: move_tree_def)
next
  case (Cons e fs)
  obtain q n where e: "e = (q, n)" by (cases e)
  from Cons.prems e have qd: "q \<noteq> dst" and rest: "map_of fs dst = None"
    by (auto split: if_splits)
  have IH: "map_of (move_tree fs src dst) dst = map_of fs src"
    using Cons.IH rest by simp
  show ?case
  proof (cases "prefix src q")
    case True
    then obtain r where r: "q = src @ r" by (auto simp: prefix_def)
    show ?thesis using IH r e by (auto simp: move_tree_def)
  next
    case False
    then have "q \<noteq> src" by auto
    with False qd IH e show ?thesis by (auto simp: move_tree_def)
  qed
qed

lemma mkdir_p_existing: "is_dir fs d \<Longrightarrow> mkdir_p fs d = Inr fs"
  by (subst mkdir_p.simps) (auto simp: is_dir_def path_exists_def)

lemma shutil_move_free:
  assumes free: "\<not> path_exists fs dst"
    and par: "is_dir fs (path_parent dst)"
    and ok: "shutil_move fs src dst = Inr fs'"
  shows "map_of fs' dst = map_of fs src
     \<and> (\<forall>p. \<not> prefix src p \<and> \<not> prefix dst p \<longrightarrow> map_of fs' p = map_of fs p)"
proof -
  from free have d: "dst \<noteq> []" and none: "map_of fs dst = None"
    by (auto simp: path_exists_def)
  then have nd: "\<not> is_dir fs dst" by (simp add: is_dir_def)
  from ok nd obtain n where n: "map_of fs src = Some n"
    by (auto simp: shutil_move_def split: option.splits)
  with none have sd: "src \<noteq> dst" by auto
  show ?thesis
  proof (cases "n = Dir")
    case True
    with ok nd n sd free mkdir_p_existing [OF par] have "fs' = move_tree fs src dst"
      by (auto simp: shutil_move_def split: if_splits)
    with none show ?thesis
      by (simp add: map_of_move_tree_dst map_of_move_tree_frame)
  next
    case False
    with ok nd n sd have "fs' = move_file fs src n dst"
      by (auto simp: shutil_move_def split: if_splits node.splits)
    with n show ?thesis by (auto simp: map_of_move_file)
  qed
qed

text \<open>
  When the move onto a free destination succeeds, and what a successful move of the
  executor says about its source.
\<close>

lemma shutil_move_succeeds:
  assumes free: "\<not> path_exists fs dst"
    and par: "is_dir fs (path_parent dst)"
    and src: "map_of fs src = Some n"
    and tree: "n = Dir \<longrightarrow> \<not> prefix src dst"
  shows "\<exists>fs'. shutil_move fs src dst = Inr fs'"
proof -
  from free have none: "map_of fs dst = None" and d: "dst \<noteq> []"
    by (auto simp: path_exists_def)
  then have nd: "\<not> is_dir fs dst" by (simp add: is_dir_def)
  from src none have sd: "src \<noteq> dst" by auto
  show ?thesis
  proof (cases "n = Dir")
    case True
    with tree src nd sd free mkdir_p_existing [OF par] show ?thesis
      by (simp add: shutil_move_def)
  next
    case False
    with src nd sd par show ?thesis
      by (cases n) (simp_all add: shutil_move_def)
  qed
qed

lemma move_one_needs_source:
  assumes mk: "mkdir_p fs (path_parent dst) = Inr fs1"
    and ex: "path_exists fs1 dst"
    and ok: "move_one False fs (src, dst) = Inr (fs', recs, lines)"
  shows "path_name dst \<noteq> [] \<and>
     (\<exists>n. map_of fs1 src = Some n \<and> (n = Dir \<longrightarrow> \<not> prefix src (path_parent dst)))"
proof -
  from ok mk obtain dst' where dd: "dedupe fs1 dst = Inr dst'"
    and mv: "shutil_move fs1 src dst' = Inr fs'"
    by (auto simp: move_one_def split: sum.splits)
  from dd ex have name: "path_name dst \<noteq> []"
    by (subst (asm) dedupe_def, subst (asm) dedupe_loop.simps)
       (auto simp: with_name_def split: if_splits)
  from dedupe_loop_least [OF name, of 1 fs1 "path_stem dst" "path_suffix dst"] dd ex
  obtain k where dst': "dst' = candidate dst k" and free: "\<not> path_exists fs1 dst'"
    by (auto simp: dedupe_def candidate_def)
  from free have none: "map_of fs1 dst' = None" and nd: "\<not> is_dir fs1 dst'"
    by (auto simp: path_exists_def is_dir_def)
  from mv nd obtain n where n: "map_of fs1 src = Some n"
    by (auto simp: shutil_move_def split: option.splits)
  have "\<not> prefix src (path_parent dst)" if "n = Dir"
  proof
    assume "prefix src (path_parent dst)"
    then have "prefix src dst'" by (simp add: dst' candidate_def)
    with mv nd n that none show False
      by (auto simp: shutil_move_def split: if_splits)
  qed
  with name n show ?thesis by blast
qed

lemma plan_loop_Inr:
  "plan_loop resolve ym fs target mode ops ps = Inr res \<Longrightarrow>
   res = ops @ concat (map (planned resolve ym fs target mode) ps)"
proof (induction ps arbitrary: ops)
  case Nil
  then show ?case by simp
next
  case (Cons p ps)
  show ?case
  proof (cases "planned resolve ym fs target mode p = []")
    case True
    with Cons.prems have "plan_loop resolve ym fs target mode ops ps = Inr res"
      by (auto simp: planned_def split: if_splits sum.splits)
    from Cons.IH [OF this] True show ?thesis by simp
  next
    case False
    then obtain d where d: "planned resolve ym fs target mode p = [(p, d)]"
      by (auto simp: planned_def split: if_splits sum.splits)
    with Cons.prems have "plan_loop resolve ym fs target mode (ops @ [(p, d)]) ps = Inr res"
      by (auto simp: planned_def split: if_splits sum.splits)
    from Cons.IH [OF this] d show ?thesis by simp
  qed
qed

lemma plan_moves_Inr:
  "plan_moves resolve ym fs source target mode = Inr ops \<Longrightarrow>
   \<exists>es. iterdir fs source = Inr es \<and> ops = concat (map (planned resolve ym fs target mode) es)"
  by (auto simp: plan_moves_def split: sum.splits dest: plan_loop_Inr)

lemma dest_of_name: "dest_of ym target mode p = Inr d \<Longrightarrow> path_name d = path_name p"
  by (auto simp: dest_of_def path_name_def Let_def split: if_splits)

lemma iterdir_entry:
  "iterdir fs d = Inr es \<Longrightarrow> p \<in> set es \<Longrightarrow> path_parent p = d \<and> p \<noteq> [] \<and> path_exists fs p"
  by (auto simp: iterdir_def path_parent_def path_exists_def map_of_eq_None_iff
           split: if_splits)

text \<open>The equations that run the model on a concrete filesystem.\<close>

lemmas path_simps = path_name_def path_parent_def path_stem_def path_suffix_def
  with_name_def cand_name_def candidate_def digit_char_def path_exists_def is_dir_def

lemmas run_simps = path_simps Let_def mkdir_p.simps dedupe_loop.simps dedupe_def str_nat.simps
  shutil_move_def move_file_def move_tree_def move_one_def undo_one_def undo_def do_moves_def
  write_text_def read_log_def iterdir_def plan_moves_def dest_of_def lower_def lower_char_def
  lstrip_def zero_pad_def plain_resolve_def march_2024_def

subsection \<open>Planner\<close>

text \<open>
  C9. In every plan the planner returns, in either mode, each destination ends in the
  file name of its origin, and each origin is a direct entry of the source directory
  that is not a directory.
\<close>

theorem plan_moves_keeps_names:
  assumes "plan_moves resolve ym fs source target mode = Inr ops"
    and "(p, d) \<in> set ops"
  shows "path_name d = path_name p \<and> \<not> is_dir fs p
     \<and> (\<exists>es. iterdir fs source = Inr es \<and> p \<in> set es)
     \<and> path_parent p = source \<and> path_exists fs p"
proof -
  from plan_moves_Inr [OF assms(1)] obtain es where es: "iterdir fs source = Inr es"
    and ops: "ops = concat (map (planned resolve ym fs target mode) es)" by blast
  from assms(2) ops obtain q where q: "q \<in> set es"
    and pd: "(p, d) \<in> set (planned resolve ym fs target mode q)" by auto
  from pd have "q = p" and nd: "\<not> is_dir fs p" and d: "dest_of ym target mode p = Inr d"
    by (auto simp: planned_def split: if_splits sum.splits)
  with q es iterdir_entry [OF es, of p] dest_of_name [OF d] show ?thesis by auto
qed

theorem plan_moves_keeps_names_witness:
  "plan_moves plain_resolve march_2024 nested_fs [''tmp''] [''tmp''] ''ext''
     = Inr [([''tmp'', ''a.txt''], [''tmp'', ''txt'', ''a.txt''])] \<and>
   ([''tmp'', ''a.txt''], [''tmp'', ''txt'', ''a.txt''])
     \<in> set [([''tmp'', ''a.txt''], [''tmp'', ''txt'', ''a.txt''])] \<and>
   path_name [''tmp'', ''txt'', ''a.txt''] = path_name [''tmp'', ''a.txt''] \<and>
   \<not> is_dir nested_fs [''tmp'', ''a.txt''] \<and>
   path_parent [''tmp'', ''a.txt''] = [''tmp''] \<and>
   plan_moves plain_resolve march_2024 nested_fs [''tmp''] [''out''] ''date''
     = Inr [([''tmp'', ''a.txt''], [''out'', ''2024'', ''03'', ''a.txt''])] \<and>
   ([''tmp'', ''a.txt''], [''out'', ''2024'', ''03'', ''a.txt''])
     \<in> set [([''tmp'', ''a.txt''], [''out'', ''2024'', ''03'', ''a.txt''])] \<and>
   path_name [''out'', ''2024'', ''03'', ''a.txt''] = path_name [''tmp'', ''a.txt'']"
proof -
  have e: "plan_moves plain_resolve march_2024 nested_fs [''tmp''] [''tmp''] ''ext''
     = Inr [([''tmp'', ''a.txt''], [''tmp'', ''txt'', ''a.txt''])]"
    by (simp add: nested_fs_def run_simps)
  have d: "plan_moves plain_resolve march_2024 nested_fs [''tmp''] [''out''] ''date''
     = Inr [([''tmp'', ''a.txt''], [''out'', ''2024'', ''03'', ''a.txt''])]"
    by (simp add: nested_fs_def run_simps)
  have m1: "([''tmp'', ''a.txt''], [''tmp'', ''txt'', ''a.txt''])
     \<in> set [([''tmp'', ''a.txt''], [''tmp'', ''txt'', ''a.txt''])]" by simp
  have m2: "([''tmp'', ''a.txt''], [''out'', ''2024'', ''03'', ''a.txt''])
     \<in> set [([''tmp'', ''a.txt''], [''out'', ''2024'', ''03'', ''a.txt''])]" by simp
  from plan_moves_keeps_names [OF e m1] plan_moves_keeps_names [OF d m2] e d m1 m2
  show ?thesis by blast
qed

text \<open>
  C6. An entry whose destination resolves to the same path as the entry itself is the
  origin of no pair of the plan; nor is any directory.
\<close>

theorem plan_moves_excludes_noops:
  assumes "plan_moves resolve ym fs source target mode = Inr ops"
    and "is_dir fs p \<or> (\<exists>d. dest_of ym target mode p = Inr d \<and> resolve p = resolve d)"
  shows "p \<notin> fst ` set ops"
proof -
  from plan_moves_Inr [OF assms(1)] obtain es where
    ops: "ops = concat (map (planned resolve ym fs target mode) es)" by blast
  have "\<And>q. q \<in> set es \<Longrightarrow> p \<notin> fst ` set (planned resolve ym fs target mode q)"
    using assms(2) by (auto simp: planned_def split: if_splits sum.splits)
  with ops show ?thesis by auto
qed

theorem plan_moves_excludes_noops_witness:
  "plan_moves plain_resolve march_2024 sorted_fs [''t'', ''txt''] [''t''] ''ext''
     = Inr [([''t'', ''txt'', ''c''], [''t'', ''no_ext'', ''c''])] \<and>
   dest_of march_2024 [''t''] ''ext'' [''t'', ''txt'', ''a.txt''] = Inr [''t'', ''txt'', ''a.txt''] \<and>
   plain_resolve [''t'', ''txt'', ''a.txt''] = plain_resolve [''t'', ''txt'', ''a.txt''] \<and>
   [''t'', ''txt'', ''a.txt''] \<notin> fst ` set [([''t'', ''txt'', ''c''], [''t'', ''no_ext'', ''c''])] \<and>
   plan_moves plain_resolve march_2024 nested_fs [''tmp''] [''tmp''] ''ext''
     = Inr [([''tmp'', ''a.txt''], [''tmp'', ''txt'', ''a.txt''])] \<and>
   is_dir nested_fs [''tmp'', ''sub''] \<and>
   [''tmp'', ''sub''] \<notin> fst ` set [([''tmp'', ''a.txt''], [''tmp'', ''txt'', ''a.txt''])]"
proof -
  have p1: "plan_moves plain_resolve march_2024 sorted_fs [''t'', ''txt''] [''t''] ''ext''
     = Inr [([''t'', ''txt'', ''c''], [''t'', ''no_ext'', ''c''])]"
    by (simp add: sorted_fs_def run_simps)
  have d1: "dest_of march_2024 [''t''] ''ext'' [''t'', ''txt'', ''a.txt'']
     = Inr [''t'', ''txt'', ''a.txt'']"
    by (simp add: run_simps)
  have h1: "is_dir sorted_fs [''t'', ''txt'', ''a.txt''] \<or>
     (\<exists>d. dest_of march_2024 [''t''] ''ext'' [''t'', ''txt'', ''a.txt''] = Inr d \<and>
          plain_resolve [''t'', ''txt'', ''a.txt''] = plain_resolve d)"
    using d1 by simp
  have p2: "plan_moves plain_resolve march_2024 nested_fs [''tmp''] [''tmp''] ''ext''
     = Inr [([''tmp'', ''a.txt''], [''tmp'', ''txt'', ''a.txt''])]"
    by (simp add: nested_fs_def run_simps)
  have i2: "is_dir nested_fs [''tmp'', ''sub'']"
    by (simp add: nested_fs_def is_dir_def)
  then have h2: "is_dir nested_fs [''tmp'', ''sub''] \<or>
     (\<exists>d. dest_of march_2024 [''tmp''] ''ext'' [''tmp'', ''sub''] = Inr d \<and>
          plain_resolve [''tmp'', ''sub''] = plain_resolve d)" by simp
  from plan_moves_excludes_noops [OF p1 h1] plan_moves_excludes_noops [OF p2 h2] p1 d1 p2 i2
  show ?thesis by simp
qed

text \<open>
  C5, as amended. A source directory that lists exactly \<^verbatim>\<open>a.txt\<close>, \<^verbatim>\<open>b.TXT\<close> and
  \<^verbatim>\<open>c\<close>, none of them a directory, is planned by extension into exactly three moves,
  to \<^verbatim>\<open>txt/a.txt\<close>, \<^verbatim>\<open>txt/b.TXT\<close> and \<^verbatim>\<open>no_ext/c\<close> under the target,
  provided none of these three destinations resolves to the path of its origin.
\<close>

theorem plan_moves_three_entries:
  assumes es: "iterdir fs source = Inr es"
    and set: "set es = {source @ [''a.txt''], source @ [''b.TXT''], source @ [''c'']}"
    and dist: "distinct es"
    and files: "\<forall>p\<in>set es. \<not> is_dir fs p"
    and a: "resolve (source @ [''a.txt'']) \<noteq> resolve (target @ [''txt'', ''a.txt''])"
    and b: "resolve (source @ [''b.TXT'']) \<noteq> resolve (target @ [''txt'', ''b.TXT''])"
    and c: "resolve (source @ [''c'']) \<noteq> resolve (target @ [''no_ext'', ''c''])"
  shows "\<exists>ops. plan_moves resolve ym fs source target ''ext'' = Inr ops
     \<and> length ops = 3
     \<and> set ops = {(source @ [''a.txt''], target @ [''txt'', ''a.txt'']),
                  (source @ [''b.TXT''], target @ [''txt'', ''b.TXT'']),
                  (source @ [''c''], target @ [''no_ext'', ''c''])}"
proof -
  let ?f = "\<lambda>p. (p, target @ [if path_name p = ''c'' then ''no_ext'' else ''txt'', path_name p])"
  have pl: "planned resolve ym fs target ''ext'' p = [?f p]" if "p \<in> set es" for p
  proof -
    from that files have nd: "\<not> is_dir fs p" by blast
    from that set consider "p = source @ [''a.txt'']" | "p = source @ [''b.TXT'']"
      | "p = source @ [''c'']" by blast
    then show ?thesis
    proof cases
      case 1
      with nd a show ?thesis
        by (simp add: planned_def dest_of_def path_name_def path_suffix_def lower_def
              lower_char_def lstrip_def Let_def)
    next
      case 2
      with nd b show ?thesis
        by (simp add: planned_def dest_of_def path_name_def path_suffix_def lower_def
              lower_char_def lstrip_def Let_def)
    next
      case 3
      with nd c show ?thesis
        by (simp add: planned_def dest_of_def path_name_def path_suffix_def lower_def
              lower_char_def lstrip_def Let_def)
    qed
  qed
  have run: "plan_loop resolve ym fs target ''ext'' ops ps = Inr (ops @ map ?f ps)"
    if "set ps \<subseteq> set es" for ops ps
    using that
  proof (induction ps arbitrary: ops)
    case Nil
    then show ?case by simp
  next
    case (Cons p ps)
    then have p: "p \<in> set es" and ps: "set ps \<subseteq> set es" by auto
    from pl [OF p] have "\<not> is_dir fs p"
      and "\<exists>d. dest_of ym target ''ext'' p = Inr d \<and> resolve p \<noteq> resolve d \<and> (p, d) = ?f p"
      by (auto simp: planned_def split: if_splits sum.splits)
    then show ?case using Cons.IH [OF ps] by auto
  qed
  have plan: "plan_moves resolve ym fs source target ''ext'' = Inr (map ?f es)"
    using run [of es "[]"] es by (simp add: plan_moves_def)
  have "card (set es) = 3" using set by (simp add: card_insert_if)
  with dist have len: "length es = 3" by (simp add: distinct_card)
  have "set (map ?f es) = ?f ` set es" by simp
  also have "\<dots> = {(source @ [''a.txt''], target @ [''txt'', ''a.txt'']),
                  (source @ [''b.TXT''], target @ [''txt'', ''b.TXT'']),
                  (source @ [''c''], target @ [''no_ext'', ''c''])}"
    unfolding set by (simp add: path_name_def)
  finally show ?thesis using plan len by simp
qed

theorem plan_moves_three_entries_witness:
  "iterdir tmp_fs [''tmp'']
     = Inr [[''tmp'', ''a.txt''], [''tmp'', ''b.TXT''], [''tmp'', ''c'']] \<and>
   \<not> is_dir tmp_fs [''tmp'', ''a.txt''] \<and> \<not> is_dir tmp_fs [''tmp'', ''b.TXT''] \<and>
   \<not> is_dir tmp_fs [''tmp'', ''c''] \<and>
   plain_resolve [''tmp'', ''a.txt''] \<noteq> plain_resolve [''tmp'', ''txt'', ''a.txt''] \<and>
   plain_resolve [''tmp'', ''b.TXT''] \<noteq> plain_resolve [''tmp'', ''txt'', ''b.TXT''] \<and>
   plain_resolve [''tmp'', ''c''] \<noteq> plain_resolve [''tmp'', ''no_ext'', ''c''] \<and>
   (\<exists>ops. plan_moves plain_resolve march_2024 tmp_fs [''tmp''] [''tmp''] ''ext'' = Inr ops
     \<and> length ops = 3
     \<and> set ops = {([''tmp'', ''a.txt''], [''tmp'', ''txt'', ''a.txt'']),
                  ([''tmp'', ''b.TXT''], [''tmp'', ''txt'', ''b.TXT'']),
                  ([''tmp'', ''c''], [''tmp'', ''no_ext'', ''c''])})"
proof -
  let ?es = "[[''tmp'', ''a.txt''], [''tmp'', ''b.TXT''], [''tmp'', ''c'']]"
  have es: "iterdir tmp_fs [''tmp''] = Inr ?es"
    by (simp add: tmp_fs_def iterdir_def is_dir_def)
  have st: "set ?es = {[''tmp''] @ [''a.txt''], [''tmp''] @ [''b.TXT''], [''tmp''] @ [''c'']}"
    by simp
  have di: "distinct ?es" by simp
  have fi: "\<forall>p\<in>set ?es. \<not> is_dir tmp_fs p" by (simp add: tmp_fs_def is_dir_def)
  have a: "plain_resolve ([''tmp''] @ [''a.txt'']) \<noteq> plain_resolve ([''tmp''] @ [''txt'', ''a.txt''])"
    by (simp add: plain_resolve_def)
  have b: "plain_resolve ([''tmp''] @ [''b.TXT'']) \<noteq> plain_resolve ([''tmp''] @ [''txt'', ''b.TXT''])"
    by (simp add: plain_resolve_def)
  have c: "plain_resolve ([''tmp''] @ [''c'']) \<noteq> plain_resolve ([''tmp''] @ [''no_ext'', ''c''])"
    by (simp add: plain_resolve_def)
  from plan_moves_three_entries [OF es st di fi a b c, of march_2024] es fi a b c
  show ?thesis by simp
qed

text \<open>
  C5, as stated, fails where the source directory is the extension directory of the
  target: \<^verbatim>\<open>/t/txt\<close> organized under \<^verbatim>\<open>/t\<close> keeps \<^verbatim>\<open>a.txt\<close> and \<^verbatim>\<open>b.TXT\<close>
  where they are, and the plan has one move.
\<close>

theorem plan_moves_three_entries_counterexample:
  "iterdir sorted_fs [''t'', ''txt'']
     = Inr [[''t'', ''txt'', ''a.txt''], [''t'', ''txt'', ''b.TXT''], [''t'', ''txt'', ''c'']] \<and>
   \<not> is_dir sorted_fs [''t'', ''txt'', ''a.txt''] \<and>
   \<not> is_dir sorted_fs [''t'', ''txt'', ''b.TXT''] \<and>
   \<not> is_dir sorted_fs [''t'', ''txt'', ''c''] \<and>
   plan_moves plain_resolve march_2024 sorted_fs [''t'', ''txt''] [''t''] ''ext''
     = Inr [([''t'', ''txt'', ''c''], [''t'', ''no_ext'', ''c''])]"
  by (simp add: sorted_fs_def run_simps)

subsection \<open>Collision resolution\<close>

text \<open>
  C10. The collision loop of the executor is a total function: for a destination that
  has a name and any (finite) filesystem it returns, and what it returns is the
  candidate \<open>stem (k)suffix\<close> with the least counter \<open>k \<ge> 1\<close> that does not exist:
  that candidate is free and every candidate with a smaller counter exists.
\<close>

theorem dedupe_loop_least_counter:
  assumes "path_name dst \<noteq> []"
  shows "\<exists>k\<ge>1. dedupe_loop fs dst (path_stem dst) (path_suffix dst) 1 = Inr (candidate dst k)
           \<and> \<not> path_exists fs (candidate dst k)
           \<and> (\<forall>j. 1 \<le> j \<and> j < k \<longrightarrow> path_exists fs (candidate dst j))"
  unfolding candidate_def using assms by (rule dedupe_loop_least)

theorem dedupe_loop_least_counter_witness:
  "path_name [''t'', ''txt'', ''report.txt''] \<noteq> [] \<and>
   (\<exists>k\<ge>1. dedupe_loop report_fs [''t'', ''txt'', ''report.txt'']
            (path_stem [''t'', ''txt'', ''report.txt''])
            (path_suffix [''t'', ''txt'', ''report.txt'']) 1
          = Inr (candidate [''t'', ''txt'', ''report.txt''] k)
        \<and> \<not> path_exists report_fs (candidate [''t'', ''txt'', ''report.txt''] k)
        \<and> (\<forall>j. 1 \<le> j \<and> j < k \<longrightarrow>
               path_exists report_fs (candidate [''t'', ''txt'', ''report.txt''] j)))"
  using dedupe_loop_least_counter [of "[''t'', ''txt'', ''report.txt'']" report_fs]
  by (simp add: path_name_def)

text \<open>
  C4. A move executed without dry-run whose destination exists (in \<open>fs1\<close>, the
  filesystem once the parent directories are ensured) and whose source is there (a file,
  or a directory that does not contain the destination) succeeds, and it goes to the
  candidate \<open>stem (k)suffix\<close> with the least counter \<open>k \<ge> 1\<close> that is free: every
  candidate with a smaller counter exists. That candidate is the recorded destination;
  the node of the source arrives there, and every path outside the source and outside
  the free candidate keeps its node: nothing is overwritten.
\<close>

theorem move_one_collision:
  assumes name: "path_name dst \<noteq> []"
    and mk: "mkdir_p fs (path_parent dst) = Inr fs1"
    and ex: "path_exists fs1 dst"
    and src: "map_of fs1 src = Some n"
    and tree: "n = Dir \<longrightarrow> \<not> prefix src (path_parent dst)"
  shows "\<exists>k\<ge>1. \<exists>fs'.
           move_one False fs (src, dst)
             = Inr (fs', [(src, candidate dst k)], [MOVE src (candidate dst k)])
           \<and> \<not> path_exists fs1 (candidate dst k)
           \<and> (\<forall>j. 1 \<le> j \<and> j < k \<longrightarrow> path_exists fs1 (candidate dst j))
           \<and> map_of fs' (candidate dst k) = map_of fs1 src
           \<and> (\<forall>p. \<not> prefix src p \<and> \<not> prefix (candidate dst k) p
                  \<longrightarrow> map_of fs' p = map_of fs1 p)"
proof -
  from dedupe_loop_least [OF name, of 1 fs1 "path_stem dst" "path_suffix dst"]
  obtain k where k: "1 \<le> k"
    and res: "dedupe_loop fs1 dst (path_stem dst) (path_suffix dst) 1 = Inr (candidate dst k)"
    and free: "\<not> path_exists fs1 (candidate dst k)"
    and least: "\<forall>j. 1 \<le> j \<and> j < k \<longrightarrow> path_exists fs1 (candidate dst j)"
    unfolding candidate_def by blast
  from ex res have dd: "dedupe fs1 dst = Inr (candidate dst k)"
    by (simp add: dedupe_def)
  have par: "is_dir fs1 (path_parent (candidate dst k))"
    using mkdir_p_is_dir [OF mk] by (simp add: candidate_def path_parent_def)
  from free src have ne: "src \<noteq> candidate dst k"
    by (auto simp: path_exists_def)
  have tree': "n = Dir \<longrightarrow> \<not> prefix src (candidate dst k)"
    using tree ne by (auto simp: candidate_def)
  from shutil_move_succeeds [OF free par src tree']
  obtain fs' where mv: "shutil_move fs1 src (candidate dst k) = Inr fs'" by blast
  from mk dd mv have run: "move_one False fs (src, dst)
      = Inr (fs', [(src, candidate dst k)], [MOVE src (candidate dst k)])"
    by (simp add: move_one_def)
  from shutil_move_free [OF free par mv] k run free least
  show ?thesis by blast
qed

theorem move_one_collision_witness:
  "path_name [''t'', ''txt'', ''report.txt''] \<noteq> [] \<and>
   mkdir_p report2_fs (path_parent [''t'', ''txt'', ''report.txt'']) = Inr report2_fs \<and>
   path_exists report2_fs [''t'', ''txt'', ''report.txt''] \<and>
   map_of report2_fs [''s'', ''report.txt''] = Some (File ''third'') \<and>
   path_exists report2_fs (candidate [''t'', ''txt'', ''report.txt''] 1) \<and>
   candidate [''t'', ''txt'', ''report.txt''] 2 = [''t'', ''txt'', ''report (2).txt''] \<and>
   move_one False report2_fs ([''s'', ''report.txt''], [''t'', ''txt'', ''report.txt''])
     = Inr ([([''s''], Dir), ([''t''], Dir), ([''t'', ''txt''], Dir),
             ([''t'', ''txt'', ''report.txt''], File ''first''),
             ([''t'', ''txt'', ''report (1).txt''], File ''second''),
             ([''t'', ''txt'', ''report (2).txt''], File ''third'')],
            [([''s'', ''report.txt''], [''t'', ''txt'', ''report (2).txt''])],
            [MOVE [''s'', ''report.txt''] [''t'', ''txt'', ''report (2).txt'']]) \<and>
   (\<exists>k\<ge>2. \<exists>fs'.
      move_one False report2_fs ([''s'', ''report.txt''], [''t'', ''txt'', ''report.txt''])
        = Inr (fs', [([''s'', ''report.txt''], candidate [''t'', ''txt'', ''report.txt''] k)],
               [MOVE [''s'', ''report.txt''] (candidate [''t'', ''txt'', ''report.txt''] k)])
      \<and> \<not> path_exists report2_fs (candidate [''t'', ''txt'', ''report.txt''] k)
      \<and> (\<forall>j. 1 \<le> j \<and> j < k \<longrightarrow>
             path_exists report2_fs (candidate [''t'', ''txt'', ''report.txt''] j))
      \<and> map_of fs' (candidate [''t'', ''txt'', ''report.txt''] k) = Some (File ''third''))"
proof -
  let ?dst = "[''t'', ''txt'', ''report.txt'']"
  let ?src = "[''s'', ''report.txt'']"
  have h1: "path_name ?dst \<noteq> []"
    by (simp add: path_name_def)
  have h2: "mkdir_p report2_fs (path_parent ?dst) = Inr report2_fs"
    by (simp add: mkdir_p.simps report2_fs_def path_simps)
  have h3: "path_exists report2_fs ?dst"
    by (simp add: report2_fs_def path_exists_def)
  have h4: "map_of report2_fs ?src = Some (File ''third'')"
    by (simp add: report2_fs_def)
  have h5: "File ''third'' = Dir \<longrightarrow> \<not> prefix ?src (path_parent ?dst)"
    by simp
  have c1: "path_exists report2_fs (candidate ?dst 1)"
    by (simp add: report2_fs_def str_nat.simps path_simps)
  have c2: "candidate ?dst 2 = [''t'', ''txt'', ''report (2).txt'']"
    by (simp add: str_nat.simps path_simps)
  have run: "move_one False report2_fs (?src, ?dst)
     = Inr ([([''s''], Dir), ([''t''], Dir), ([''t'', ''txt''], Dir),
             ([''t'', ''txt'', ''report.txt''], File ''first''),
             ([''t'', ''txt'', ''report (1).txt''], File ''second''),
             ([''t'', ''txt'', ''report (2).txt''], File ''third'')],
            [(?src, [''t'', ''txt'', ''report (2).txt''])],
            [MOVE ?src [''t'', ''txt'', ''report (2).txt'']])"
    by (simp add: report2_fs_def run_simps)
  from move_one_collision [OF h1 h2 h3 h4 h5]
  obtain k fs' where k: "1 \<le> k"
    and mv: "move_one False report2_fs (?src, ?dst)
        = Inr (fs', [(?src, candidate ?dst k)], [MOVE ?src (candidate ?dst k)])"
    and free: "\<not> path_exists report2_fs (candidate ?dst k)"
    and least: "\<forall>j. 1 \<le> j \<and> j < k \<longrightarrow> path_exists report2_fs (candidate ?dst j)"
    and node: "map_of fs' (candidate ?dst k) = map_of report2_fs ?src"
    by blast
  from free c1 have "k \<noteq> 1" by auto
  with k have k2: "2 \<le> k" by simp
  from k2 mv free least node h4
  have "\<exists>k\<ge>2. \<exists>fs'.
      move_one False report2_fs (?src, ?dst)
        = Inr (fs', [(?src, candidate ?dst k)], [MOVE ?src (candidate ?dst k)])
      \<and> \<not> path_exists report2_fs (candidate ?dst k)
      \<and> (\<forall>j. 1 \<le> j \<and> j < k \<longrightarrow> path_exists report2_fs (candidate ?dst j))
      \<and> map_of fs' (candidate ?dst k) = Some (File ''third'')"
    by auto
  with h1 h2 h3 h4 c1 c2 run show ?thesis by blast
qed

subsection \<open>Dry run\<close>

text \<open>
  What a dry run leaves alone: no record is added, and every path keeps its node, except
  that a path that did not exist may have become a directory. No file is moved and no
  log is written.
\<close>

lemma mkdir_p_only_dirs:
  "mkdir_p fs d = Inr fs1 \<Longrightarrow>
   map_of fs1 p = map_of fs p \<or> (map_of fs p = None \<and> map_of fs1 p = Some Dir)"
proof (induction fs d arbitrary: fs1 rule: mkdir_p.induct)
  case (1 fs d)
  show ?case
  proof (cases "path_exists fs d")
    case True
    with "1.prems" show ?thesis
      by (subst (asm) mkdir_p.simps) (auto split: if_splits)
  next
    case False
    with "1.prems" obtain fs' where fs1: "fs1 = fs' @ [(d, Dir)]"
      and fs': "fs' = fs \<or> (\<not> is_dir fs (path_parent d) \<and> \<not> path_exists fs (path_parent d)
                 \<and> mkdir_p fs (path_parent d) = Inr fs')"
      by (subst (asm) mkdir_p.simps) (auto split: if_splits sum.splits)
    from fs' have "map_of fs' p = map_of fs p \<or> (map_of fs p = None \<and> map_of fs' p = Some Dir)"
      using "1.IH" [OF False, of fs'] by auto
    with fs1 show ?thesis by (auto simp: map_add_def split: option.splits)
  qed
qed

lemma do_loop_dry_run:
  "do_loop True fs performed out ops = Inr (fs', performed', out') \<Longrightarrow>
   performed' = performed \<and>
   (\<forall>p. map_of fs' p = map_of fs p \<or> (map_of fs p = None \<and> map_of fs' p = Some Dir))"
proof (induction ops arbitrary: fs out)
  case Nil
  then show ?case by simp
next
  case (Cons op ops)
  from Cons.prems obtain fs1 where mk: "mkdir_p fs (path_parent (snd op)) = Inr fs1"
    and rest: "do_loop True fs1 performed (out @ [DRY (fst op) (snd op)]) ops
                 = Inr (fs', performed', out')"
    by (auto simp: move_one_def Let_def split: sum.splits)
  from Cons.IH [OF rest] mkdir_p_only_dirs [OF mk] show ?case
    by (metis option.distinct(1))
qed

lemma do_moves_dry_run:
  "do_moves fs ops True undo_log = Inr (fs', out) \<Longrightarrow>
   map_of fs' p = map_of fs p \<or> (map_of fs p = None \<and> map_of fs' p = Some Dir)"
  by (auto simp: do_moves_def split: sum.splits option.splits prod.splits
           dest!: do_loop_dry_run)

text \<open>
  C3. A dry run is not free of filesystem mutations: the executor ensures the parent
  directory of every destination before it looks at the flag. Organizing \<^verbatim>\<open>/s\<close>,
  which holds \<^verbatim>\<open>a.txt\<close>, with dry-run creates the directory \<^verbatim>\<open>/s/txt\<close>.
\<close>

theorem dry_run_creates_directory:
  "plan_moves plain_resolve march_2024 one_fs [''s''] [''s''] ''ext''
     = Inr [([''s'', ''a.txt''], [''s'', ''txt'', ''a.txt''])] \<and>
   \<not> path_exists one_fs [''s'', ''txt''] \<and>
   do_moves one_fs [([''s'', ''a.txt''], [''s'', ''txt'', ''a.txt''])] True
       (Some [''undo_moves.json''])
     = Inr ([([''s''], Dir), ([''s'', ''a.txt''], File ''x''), ([''s'', ''txt''], Dir)],
            [DRY [''s'', ''a.txt''] [''s'', ''txt'', ''a.txt'']])"
  by (simp add: one_fs_def run_simps)

subsection \<open>Undo engine\<close>

text \<open>
  C7. When the undo log does not exist, \<open>undo\<close> prints that no log was found and
  returns normally, leaving the filesystem as it was.
\<close>

theorem undo_missing_log:
  "\<not> path_exists fs undo_log \<Longrightarrow> undo fs undo_log dry_run = Inr (fs, [NoUndoLog])"
  by (simp add: undo_def)

theorem undo_missing_log_witness:
  "\<not> path_exists report_fs [''undo_moves.json''] \<and>
   undo report_fs [''undo_moves.json''] False = Inr (report_fs, [NoUndoLog])"
proof -
  have h: "\<not> path_exists report_fs [''undo_moves.json'']"
    by (simp add: report_fs_def path_exists_def)
  from undo_missing_log [OF h] h show ?thesis by simp
qed

text \<open>
  C2. The loop of \<open>undo\<close> binds the first element of a record, the origin written by
  the executor, as the file to move and the second, the destination, as the place to
  move it to. For the record of \<^verbatim>\<open>/s/a.txt\<close> moved to \<^verbatim>\<open>/s/txt/a.txt\<close>: with the
  file at its destination and nothing at the origin the record is skipped; with a new
  file at the origin, that file is moved onto the destination.
\<close>

theorem undo_one_takes_origin_for_file:
  "undo_one False
       [([''s''], Dir), ([''s'', ''txt''], Dir), ([''s'', ''txt'', ''a.txt''], File ''x'')]
       ([''s'', ''a.txt''], [''s'', ''txt'', ''a.txt''])
     = Inr ([([''s''], Dir), ([''s'', ''txt''], Dir), ([''s'', ''txt'', ''a.txt''], File ''x'')],
            [SKIP [''s'', ''a.txt'']]) \<and>
   undo refilled_fs [''undo_moves.json''] False
     = Inr ([([''s''], Dir), ([''s'', ''txt''], Dir),
             ([''s'', ''txt'', ''a.txt''], File ''new''),
             ([''undo_moves.json''],
              LogFile [([''s'', ''a.txt''], [''s'', ''txt'', ''a.txt''])])],
            [UNDO [''s'', ''a.txt''] [''s'', ''txt'', ''a.txt'']])"
  by (simp add: refilled_fs_def run_simps)

text \<open>
  C8. With \<^verbatim>\<open>/s/txt/a.txt\<close> deleted and \<^verbatim>\<open>/s/txt/b.txt\<close> in place, the undo pass
  runs to its end without an error, but it skips both records: the one whose destination
  exists is not moved back either.
\<close>

theorem undo_skips_existing_destination:
  "map_of two_moved_fs [''s'', ''txt'', ''a.txt''] = None \<and>
   map_of two_moved_fs [''s'', ''txt'', ''b.txt''] = Some (File ''y'') \<and>
   undo two_moved_fs [''undo_moves.json''] False
     = Inr (two_moved_fs, [SKIP [''s'', ''b.txt''], SKIP [''s'', ''a.txt'']])"
  by (simp add: two_moved_fs_def run_simps)

text \<open>
  C1. Organizing \<^verbatim>\<open>/s\<close> by extension and undoing the written log at once does not
  bring \<^verbatim>\<open>/s/a.txt\<close> back: the undo pass skips the only record, and the file stays at
  \<^verbatim>\<open>/s/txt/a.txt\<close>.
\<close>

theorem organize_then_undo_restores_nothing:
  "plan_moves plain_resolve march_2024 one_fs [''s''] [''s''] ''ext''
     = Inr [([''s'', ''a.txt''], [''s'', ''txt'', ''a.txt''])] \<and>
   do_moves one_fs [([''s'', ''a.txt''], [''s'', ''txt'', ''a.txt''])] False
       (Some [''undo_moves.json''])
     = Inr (one_moved_fs,
            [MOVE [''s'', ''a.txt''] [''s'', ''txt'', ''a.txt''], LOG [''undo_moves.json'']]) \<and>
   undo one_moved_fs [''undo_moves.json''] False
     = Inr (one_moved_fs, [SKIP [''s'', ''a.txt'']]) \<and>
   map_of one_fs [''s'', ''a.txt''] = Some (File ''x'') \<and>
   map_of one_moved_fs [''s'', ''a.txt''] = None \<and>
   map_of one_moved_fs [''s'', ''txt'', ''a.txt''] = Some (File ''x'')"
  by (simp add: one_fs_def one_moved_fs_def run_simps)

end
